theory Spec2Isabelle
  imports Main
begin

section \<open>The per-host connection pool of pool.hpp\<close>

text \<open>
  The class \<open>Pool\<close> of \<open>src/pool.hpp\<close> is embedded by explicit state passing. Pointers to
  \<open>ClientConnection\<close> and \<open>RequestHandler\<close> objects are natural numbers; the connection
  objects live in a store (\<open>conn\<close>), because the pool reads their flags through the
  pointers it keeps in its two lists. Every call the pool makes on a collaborator (a
  connection, a timer, a request handler, one of its three owner callbacks) is appended
  to \<open>trace\<close>, in the order the source makes it, so that "the notification fires",
  "the handler is never invoked" and "the timer is cancelled before dispatch" are
  statements about that list. Member names are the source's without the trailing
  underscore (\<open>connections_\<close> is \<open>connections\<close>); \<open>is_closing_\<close> of the pool is
  \<open>pool_is_closing\<close>, since \<open>is_closing\<close> is the connection's predicate.

  The event loop is single threaded: each member function runs to completion, and the
  completions of \<open>connect()\<close> and \<open>close()\<close> arrive later as separate calls of
  \<open>on_connection_connect\<close> and \<open>on_connection_close\<close>.
\<close>

subsection \<open>Collaborators declared outside pool.hpp\<close>

text \<open>
  The configuration object: pool.hpp reads four of its options through accessors, and
  passes the fifth, \<open>connect_timeout\<close>, to the timer. Their C++ types are declared in a
  header that is not part of the sources; they are counts, taken as naturals.
\<close>

record Config =
  core_connections_per_host :: nat
  max_connections_per_host :: nat
  max_simultaneous_creation :: nat
  max_pending_requests :: nat
  connect_timeout :: nat

text \<open>
  Modelled from the spec: \<open>ClientConnection\<close> (client_connection.hpp is missing). The
  spec gives a connection the states connecting, ready, closing and defunct, a capacity
  count, and the operations \<open>connect()\<close>, \<open>close()\<close>, \<open>is_ready()\<close>, \<open>is_closing()\<close>,
  \<open>is_defunct()\<close>, available capacity and dispatch. The three predicates and the capacity
  that pool.hpp reads are the fields of the record; a connection with no flag set is
  connecting.
\<close>

record ClientConnection =
  is_ready :: bool
  is_closing :: bool
  is_defunct :: bool
  available_streams :: nat

definition new_ClientConnection :: ClientConnection where
  "new_ClientConnection =
     \<lparr>is_ready = False, is_closing = False, is_defunct = False, available_streams = 0\<rparr>"

text \<open>The opcodes, error codes and retry reasons pool.hpp switches on; every other value
  of the enumerations (declared elsewhere) is kept with its number.\<close>

datatype cql_opcode = CQL_OPCODE_ERROR | CQL_OPCODE_RESULT | CQL_OPCODE_OTHER nat

datatype cql_error = CQL_ERROR_UNPREPARED | CQL_ERROR_OTHER nat

datatype CassError = CASS_ERROR_LIB_WRITE_ERROR | CASS_ERROR_OTHER nat

datatype RetryType = RETRY_WITH_NEXT_HOST

text \<open>A response message: its opcode, and the code of its body read as a \<open>BodyError\<close>
  (only looked at when the opcode is \<open>CQL_OPCODE_ERROR\<close>).\<close>

record Message =
  opcode :: cql_opcode
  body_code :: cql_error

text \<open>The two kinds of \<open>ResponseCallback\<close> the pool hands to \<open>connection->execute\<close>: a
  \<open>PoolHandler\<close> (pool, connection, owned request handler) and a \<open>PrepareHandler\<close> built
  from the retry callback and the released request handler (null when nothing was
  owned).\<close>

record PoolHandler =
  connection :: nat
  request_handler :: "nat option"

datatype ResponseCallback =
    new_PoolHandler nat nat
  | new_PrepareHandler "nat option"

text \<open>What the pool does to the outside, in order.\<close>

datatype action =
    connect_callback
  | close_callback
  | retry_callback "nat option" RetryType
  | Connection_connect nat
  | Connection_close nat
  | Connection_defunct nat
  | Connection_execute nat ResponseCallback
  | Timer_start nat nat
  | Timer_stop nat
  | Request_on_set nat Message
  | Request_on_error nat CassError string
  | Request_on_timeout nat

text \<open>Undefined behaviour of the C++ is a value: dereferencing the end iterator of an
  empty list, and calling through a null \<open>unique_ptr\<close>.\<close>

datatype error = DEREF_END_ITERATOR | DEREF_NULL_POINTER

subsection \<open>The pool's state\<close>

record Pool =
  connections :: "nat list"
  connections_pending :: "nat list"
  pending_request_queue :: "nat list"
  pool_is_closing :: bool
  conn :: "nat \<Rightarrow> ClientConnection"
  next_connection :: nat
  timer :: "nat \<Rightarrow> nat option"
  trace :: "action list"

definition emit :: "action \<Rightarrow> Pool \<Rightarrow> Pool" where
  "emit a s = s\<lparr>trace := trace s @ [a]\<rparr>"

text \<open>
  Modelled from the spec: the effect of \<open>close()\<close> and \<open>defunct()\<close> on a connection object
  (client_connection.hpp is missing). The spec's connection states are exclusive, so a
  connection asked to close is closing and no more ready, and one marked unusable is
  defunct and no more ready. The completion of a close is a later
  \<open>on_connection_close\<close>.
\<close>

definition Connection_close_call :: "nat \<Rightarrow> Pool \<Rightarrow> Pool" where
  "Connection_close_call c s =
     emit (Connection_close c)
       (s\<lparr>conn := (conn s)(c := (conn s c)\<lparr>is_ready := False, is_closing := True\<rparr>)\<rparr>)"

definition Connection_defunct_call :: "nat \<Rightarrow> Pool \<Rightarrow> Pool" where
  "Connection_defunct_call c s =
     emit (Connection_defunct c)
       (s\<lparr>conn := (conn s)(c := (conn s c)\<lparr>is_ready := False, is_defunct := True\<rparr>)\<rparr>)"

subsection \<open>Spawning connections\<close>

text \<open>\<open>spawn_connection\<close> (lines 188-204): nothing when closing; otherwise a new
  connection object, \<open>connect()\<close> on it, and its pointer appended to the pending list.\<close>

definition spawn_connection :: "Pool \<Rightarrow> Pool" where
  "spawn_connection s =
     (if pool_is_closing s then s
      else
        let c = next_connection s;
            s1 = s\<lparr>conn := (conn s)(c := new_ClientConnection), next_connection := Suc c\<rparr>;
            s2 = emit (Connection_connect c) s1
        in s2\<lparr>connections_pending := connections_pending s2 @ [c]\<rparr>)"

text \<open>The loop \<open>for (size_t i = 0; i < core_connections_per_host(); ++i) spawn_connection();\<close>
  of the constructor (lines 134-136) and of \<open>borrow_connection\<close> (lines 243-245).\<close>

fun spawn_connections :: "nat \<Rightarrow> Pool \<Rightarrow> Pool" where
  "spawn_connections 0 s = s"
| "spawn_connections (Suc n) s = spawn_connections n (spawn_connection s)"

text \<open>The constructor (lines 119-137): empty lists, not closing, then the initial
  population.\<close>

definition empty_Pool :: Pool where
  "empty_Pool =
     \<lparr>connections = [], connections_pending = [], pending_request_queue = [],
      pool_is_closing = False, conn = (\<lambda>_. new_ClientConnection), next_connection = 0,
      timer = (\<lambda>_. None), trace = []\<rparr>"

definition Pool_ctor :: "Config \<Rightarrow> Pool" where
  "Pool_ctor config = spawn_connections (core_connections_per_host config) empty_Pool"

text \<open>\<open>maybe_spawn_connection\<close> (lines 206-217): the two ceilings, then
  \<open>spawn_connection\<close>.\<close>

definition maybe_spawn_connection :: "Config \<Rightarrow> Pool \<Rightarrow> Pool" where
  "maybe_spawn_connection config s =
     (if length (connections_pending s) \<ge> max_simultaneous_creation config then s
      else if length (connections s) + length (connections_pending s)
                \<ge> max_connections_per_host config then s
      else spawn_connection s)"

subsection \<open>The pending request queue\<close>

text \<open>\<open>execute\<close> (lines 254-256) wraps the request in a new \<open>PoolHandler\<close> and hands it to
  \<open>connection->execute\<close>. Whether the transport accepts the dispatch is decided in
  client_connection.hpp, outside these sources: it is the parameter \<open>accepted\<close>, and the
  result of \<open>execute\<close>.\<close>

definition execute :: "nat \<Rightarrow> nat \<Rightarrow> bool \<Rightarrow> Pool \<Rightarrow> bool \<times> Pool" where
  "execute c r accepted s = (accepted, emit (Connection_execute c (new_PoolHandler c r)) s)"

text \<open>\<open>execute_pending_request\<close> (lines 276-288).\<close>

definition execute_pending_request :: "nat \<Rightarrow> bool \<Rightarrow> Pool \<Rightarrow> Pool" where
  "execute_pending_request c accepted s =
     (case pending_request_queue s of
        [] \<Rightarrow> s
      | r # rest \<Rightarrow>
          let s1 = s\<lparr>pending_request_queue := rest\<rparr>;
              s2 = (if timer s1 r \<noteq> None
                    then (emit (Timer_stop r) s1)\<lparr>timer := (timer s1)(r := None)\<rparr>
                    else s1);
              (ok, s3) = execute c r accepted s2
          in if \<not> ok then emit (retry_callback (Some r) RETRY_WITH_NEXT_HOST) s3 else s3)"

text \<open>\<open>wait_for_connection\<close> (lines 265-274). \<open>size() + 1\<close> is \<open>size_t\<close> arithmetic; a
  \<open>std::list\<close> cannot hold \<open>SIZE_MAX\<close> elements, so the sum does not wrap.\<close>

definition wait_for_connection :: "Config \<Rightarrow> nat \<Rightarrow> Pool \<Rightarrow> bool \<times> Pool" where
  "wait_for_connection config r s =
     (if pool_is_closing s
         \<or> length (pending_request_queue s) + 1 > max_pending_requests config
      then (False, s)
      else
        let s1 = (emit (Timer_start r (connect_timeout config)) s)
                   \<lparr>timer := (timer s)(r \<mapsto> connect_timeout config)\<rparr>
        in (True, s1\<lparr>pending_request_queue := pending_request_queue s1 @ [r]\<rparr>))"

subsection \<open>Closing\<close>

text \<open>The loop of \<open>maybe_close\<close> (lines 163-167): the flag of each connection is read when
  the loop reaches it.\<close>

definition close_if_not_closing :: "nat \<Rightarrow> Pool \<Rightarrow> Pool" where
  "close_if_not_closing c s = (if \<not> is_closing (conn s c) then Connection_close_call c s else s)"

text \<open>\<open>maybe_close\<close> (lines 161-174).\<close>

definition maybe_close :: "Pool \<Rightarrow> Pool" where
  "maybe_close s =
     (if pool_is_closing s then
        let s1 = fold close_if_not_closing (connections s) s
        in if connections s1 = [] \<and> connections_pending s1 = [] \<and> pending_request_queue s1 = []
           then emit close_callback s1
           else s1
      else s)"

text \<open>\<open>close\<close> (lines 176-182).\<close>

definition close :: "Pool \<Rightarrow> Pool" where
  "close s =
     (let s1 = s\<lparr>pool_is_closing := True\<rparr>;
          s2 = fold Connection_close_call (connections s1) s1
      in maybe_close s2)"

text \<open>\<open>on_connection_connect\<close> (lines 139-149) and \<open>on_connection_close\<close> (lines 151-159).
  \<open>std::list::remove\<close> erases every element equal to the value.\<close>

definition on_connection_connect :: "nat \<Rightarrow> bool \<Rightarrow> Pool \<Rightarrow> Pool" where
  "on_connection_connect c accepted s =
     (let s1 = emit connect_callback s;
          s2 = s1\<lparr>connections_pending := removeAll c (connections_pending s1)\<rparr>
      in if pool_is_closing s2 then Connection_close_call c s2
         else if is_ready (conn s2 c)
         then execute_pending_request c accepted (s2\<lparr>connections := connections s2 @ [c]\<rparr>)
         else s2)"

definition on_connection_close :: "nat \<Rightarrow> Pool \<Rightarrow> Pool" where
  "on_connection_close c s =
     (let s1 = s\<lparr>connections := removeAll c (connections s)\<rparr>;
          s2 = (if is_defunct (conn s1 c) then s1\<lparr>pool_is_closing := True\<rparr> else s1)
      in maybe_close s2)"

text \<open>\<open>on_timeout\<close> (lines 258-263); the request handler is the timer's data.\<close>

definition on_timeout :: "nat \<Rightarrow> Pool \<Rightarrow> Pool" where
  "on_timeout r s =
     (let s1 = s\<lparr>pending_request_queue := removeAll r (pending_request_queue s)\<rparr>;
          s2 = emit (retry_callback (Some r) RETRY_WITH_NEXT_HOST) s1
      in maybe_close s2)"

subsection \<open>Least-busy selection and borrowing\<close>

text \<open>\<open>least_busy_comp\<close> (lines 219-223) reads both connections through their pointers.\<close>

definition least_busy_comp :: "Pool \<Rightarrow> nat \<Rightarrow> nat \<Rightarrow> bool" where
  "least_busy_comp s a b = (available_streams (conn s a) < available_streams (conn s b))"

text \<open>\<open>std::max_element(first, last, comp)\<close>, with \<open>lt\<close> for \<open>comp\<close>: \<open>last\<close> on an empty
  range (here \<open>None\<close>);
  otherwise the scan keeps the first element as \<open>largest\<close> and replaces it by a later
  one only when \<open>comp(*largest, *first)\<close> holds, so of several greatest elements the
  first is returned.\<close>

fun max_element_from :: "('a \<Rightarrow> 'a \<Rightarrow> bool) \<Rightarrow> 'a \<Rightarrow> 'a list \<Rightarrow> 'a" where
  "max_element_from lt largest [] = largest"
| "max_element_from lt largest (x # xs) =
     max_element_from lt (if lt largest x then x else largest) xs"

definition max_element :: "('a \<Rightarrow> 'a \<Rightarrow> bool) \<Rightarrow> 'a list \<Rightarrow> 'a option" where
  "max_element lt xs = (case xs of [] \<Rightarrow> None | x # rest \<Rightarrow> Some (max_element_from lt x rest))"

text \<open>\<open>find_least_busy\<close> (lines 225-235): \<open>*it\<close> is evaluated whatever \<open>max_element\<close>
  returned; on the end iterator that is undefined behaviour. \<open>Inr None\<close> is the
  \<open>nullptr\<close> result.\<close>

definition find_least_busy :: "Pool \<Rightarrow> error + nat option" where
  "find_least_busy s =
     (case max_element (least_busy_comp s) (connections s) of
        None \<Rightarrow> Inl DEREF_END_ITERATOR
      | Some c \<Rightarrow>
          if is_ready (conn s c) \<and> available_streams (conn s c) \<noteq> 0
          then Inr (Some c) else Inr None)"

text \<open>\<open>borrow_connection\<close> (lines 237-252).\<close>

definition borrow_connection :: "Config \<Rightarrow> Pool \<Rightarrow> error + (nat option \<times> Pool)" where
  "borrow_connection config s =
     (if pool_is_closing s then Inr (None, s)
      else if connections s = []
      then Inr (None, spawn_connections (core_connections_per_host config) s)
      else
        let s1 = maybe_spawn_connection config s
        in case find_least_busy s1 of
             Inl e \<Rightarrow> Inl e
           | Inr found \<Rightarrow> Inr (found, s1))"

subsection \<open>The response router: Pool::PoolHandler\<close>

text \<open>A \<open>PoolHandler\<close> owns its request handler through a \<open>unique_ptr\<close>, \<open>None\<close> once
  released. Its member functions return the handler as they leave it, and the pool.
  \<open>finish_request\<close> (lines 95-99).\<close>

definition finish_request :: "PoolHandler \<Rightarrow> bool \<Rightarrow> Pool \<Rightarrow> Pool" where
  "finish_request h accepted s =
     (if is_ready (conn s (connection h))
      then execute_pending_request (connection h) accepted s
      else s)"

text \<open>\<open>request_handler_->on_set(response)\<close>, a call through the owning pointer.\<close>

definition request_on_set :: "PoolHandler \<Rightarrow> Message \<Rightarrow> Pool \<Rightarrow> error + Pool" where
  "request_on_set h response s =
     (case request_handler h of
        None \<Rightarrow> Inl DEREF_NULL_POINTER
      | Some r \<Rightarrow> Inr (emit (Request_on_set r response) s))"

text \<open>\<open>on_error_response\<close> (lines 101-112): on \<open>CQL_ERROR_UNPREPARED\<close> the request handler
  is released into a new \<open>PrepareHandler\<close>, executed on the handler's own connection; the
  result of that \<open>execute\<close> is not looked at.\<close>

definition on_error_response :: "PoolHandler \<Rightarrow> Message \<Rightarrow> Pool \<Rightarrow> error + (PoolHandler \<times> Pool)" where
  "on_error_response h response s =
     (case body_code response of
        CQL_ERROR_UNPREPARED \<Rightarrow>
          Inr (h\<lparr>request_handler := None\<rparr>,
               emit (Connection_execute (connection h) (new_PrepareHandler (request_handler h))) s)
      | CQL_ERROR_OTHER n \<Rightarrow>
          (case request_on_set h response s of
             Inl e \<Rightarrow> Inl e
           | Inr s1 \<Rightarrow> Inr (h, s1)))"

text \<open>\<open>PoolHandler::on_set\<close> (lines 63-77).\<close>

definition PoolHandler_on_set ::
  "PoolHandler \<Rightarrow> Message \<Rightarrow> bool \<Rightarrow> Pool \<Rightarrow> error + (PoolHandler \<times> Pool)" where
  "PoolHandler_on_set h response accepted s =
     (case (case opcode response of
              CQL_OPCODE_RESULT \<Rightarrow>
                (case request_on_set h response s of
                   Inl e \<Rightarrow> Inl e
                 | Inr s1 \<Rightarrow> Inr (h, s1))
            | CQL_OPCODE_ERROR \<Rightarrow> on_error_response h response s
            | CQL_OPCODE_OTHER n \<Rightarrow>
                (case request_on_set h response s of
                   Inl e \<Rightarrow> Inl e
                 | Inr s1 \<Rightarrow> Inr (h, Connection_defunct_call (connection h) s1))) of
        Inl e \<Rightarrow> Inl e
      | Inr (h1, s1) \<Rightarrow> Inr (h1, finish_request h1 accepted s1))"

text \<open>\<open>PoolHandler::on_error\<close> (lines 79-87): \<open>request_handler_.get()\<close> does not dereference,
  \<open>request_handler_->on_error\<close> does.\<close>

definition PoolHandler_on_error ::
  "PoolHandler \<Rightarrow> CassError \<Rightarrow> string \<Rightarrow> bool \<Rightarrow> Pool \<Rightarrow> error + (PoolHandler \<times> Pool)" where
  "PoolHandler_on_error h code message accepted s =
     (if code = CASS_ERROR_LIB_WRITE_ERROR
      then Inr (h, finish_request h accepted
                     (emit (retry_callback (request_handler h) RETRY_WITH_NEXT_HOST) s))
      else
        (case request_handler h of
           None \<Rightarrow> Inl DEREF_NULL_POINTER
         | Some r \<Rightarrow> Inr (h, finish_request h accepted (emit (Request_on_error r code message) s))))"

text \<open>\<open>PoolHandler::on_timeout\<close> (lines 89-92).\<close>

definition PoolHandler_on_timeout ::
  "PoolHandler \<Rightarrow> bool \<Rightarrow> Pool \<Rightarrow> error + (PoolHandler \<times> Pool)" where
  "PoolHandler_on_timeout h accepted s =
     (case request_handler h of
        None \<Rightarrow> Inl DEREF_NULL_POINTER
      | Some r \<Rightarrow> Inr (h, finish_request h accepted (emit (Request_on_timeout r) s)))"

subsection \<open>Histories of a pool\<close>

text \<open>
  A pool is driven from outside: by its owner (\<open>borrow_connection\<close>,
  \<open>wait_for_connection\<close>, \<open>execute\<close>, \<open>close\<close>), by its connections (connect and close
  completions, the three callbacks of a \<open>PoolHandler\<close>) and by its timers. One more event
  stands for what a connection object does on its own between two calls into the pool
  (the handshake finishes, streams are taken and released, a failure marks it defunct):
  it overwrites the object's flags and capacity. The booleans are the answers of
  \<open>connection->execute\<close> during the call.
\<close>

datatype event =
    Borrow_connection
  | Wait_for_connection nat
  | Execute nat nat bool
  | Close
  | On_connection_connect nat bool
  | On_connection_close nat
  | On_timeout nat
  | Handler_on_set PoolHandler Message bool
  | Handler_on_error PoolHandler CassError string bool
  | Handler_on_timeout PoolHandler bool
  | Connection_changes nat ClientConnection

definition dropping :: "error + ('a \<times> Pool) \<Rightarrow> error + Pool" where
  "dropping res = (case res of Inl e \<Rightarrow> Inl e | Inr (x, s) \<Rightarrow> Inr s)"

fun step :: "Config \<Rightarrow> event \<Rightarrow> Pool \<Rightarrow> error + Pool" where
  "step config Borrow_connection s = dropping (borrow_connection config s)"
| "step config (Wait_for_connection r) s = Inr (snd (wait_for_connection config r s))"
| "step config (Execute c r accepted) s = Inr (snd (execute c r accepted s))"
| "step config Close s = Inr (close s)"
| "step config (On_connection_connect c accepted) s = Inr (on_connection_connect c accepted s)"
| "step config (On_connection_close c) s = Inr (on_connection_close c s)"
| "step config (On_timeout r) s = Inr (on_timeout r s)"
| "step config (Handler_on_set h response accepted) s =
     dropping (PoolHandler_on_set h response accepted s)"
| "step config (Handler_on_error h code message accepted) s =
     dropping (PoolHandler_on_error h code message accepted s)"
| "step config (Handler_on_timeout h accepted) s = dropping (PoolHandler_on_timeout h accepted s)"
| "step config (Connection_changes c cc) s = Inr (s\<lparr>conn := (conn s)(c := cc)\<rparr>)"

text \<open>Running a history from a state; undefined behaviour ends the run.\<close>

fun run :: "Config \<Rightarrow> event list \<Rightarrow> Pool \<Rightarrow> error + Pool" where
  "run config [] s = Inr s"
| "run config (e # es) s =
     (case step config e s of Inl x \<Rightarrow> Inl x | Inr s1 \<Rightarrow> run config es s1)"

subsection \<open>Observations on traces\<close>

text \<open>The calls that reach the caller's request handler: a result, an error or a
  timeout.\<close>

fun is_request_call :: "action \<Rightarrow> bool" where
  "is_request_call (Request_on_set r response) = True"
| "is_request_call (Request_on_error r code message) = True"
| "is_request_call (Request_on_timeout r) = True"
| "is_request_call a = False"

text \<open>Two states with the same connection lists and closing flag, the second with a
  queue no longer than the first: what a callback of a \<open>PoolHandler\<close> can do to the
  pool's lists.\<close>

definition same_lists :: "Pool \<Rightarrow> Pool \<Rightarrow> bool" where
  "same_lists s t \<longleftrightarrow>
     connections t = connections s \<and> connections_pending t = connections_pending s
     \<and> pool_is_closing t = pool_is_closing s
     \<and> length (pending_request_queue t) \<le> length (pending_request_queue s)"

text \<open>How often the close notification has fired; a pool is drained when its ready
  list, its pending list and its queue are empty; an observation of the state a history
  ends in (none when the history runs into undefined behaviour).\<close>

definition close_notifications :: "Pool \<Rightarrow> nat" where
  "close_notifications s = count_list (trace s) close_callback"

definition drained :: "Pool \<Rightarrow> bool" where
  "drained s \<longleftrightarrow>
     connections s = [] \<and> connections_pending s = [] \<and> pending_request_queue s = []"

definition observe :: "(Pool \<Rightarrow> 'a) \<Rightarrow> error + Pool \<Rightarrow> 'a option" where
  "observe f res = (case res of Inl e \<Rightarrow> None | Inr s \<Rightarrow> Some (f s))"

text \<open>Conditions on a history. \<open>borrows_from_ready\<close>: \<open>borrow_connection\<close> is called only
  on a pool that is closing or has a ready connection. \<open>connects_pending\<close>: a connect
  completion is delivered only for a connection of the pending list. \<open>throughout\<close>: the
  condition holds at every event of the history, in the state the event finds. The
  connections the pool holds are those of its two lists.\<close>

fun borrows_from_ready :: "event \<Rightarrow> Pool \<Rightarrow> bool" where
  "borrows_from_ready Borrow_connection s = (pool_is_closing s \<or> connections s \<noteq> [])"
| "borrows_from_ready e s = True"

fun connects_pending :: "event \<Rightarrow> Pool \<Rightarrow> bool" where
  "connects_pending (On_connection_connect c accepted) s = (c \<in> set (connections_pending s))"
| "connects_pending e s = True"

definition orderly :: "event \<Rightarrow> Pool \<Rightarrow> bool" where
  "orderly e s = (borrows_from_ready e s \<and> connects_pending e s)"

fun throughout :: "(event \<Rightarrow> Pool \<Rightarrow> bool) \<Rightarrow> Config \<Rightarrow> event list \<Rightarrow> Pool \<Rightarrow> bool" where
  "throughout ok config [] s = True"
| "throughout ok config (e # es) s =
     (ok e s \<and> (case step config e s of Inl x \<Rightarrow> True | Inr s1 \<Rightarrow> throughout ok config es s1))"

definition live_connections :: "Pool \<Rightarrow> nat" where
  "live_connections s = length (connections s) + length (connections_pending s)"

text \<open>What a call added to the trace; the events that end in the draining check
  \<open>maybe_close\<close>.\<close>

definition since :: "Pool \<Rightarrow> Pool \<Rightarrow> action list" where
  "since s t = drop (length (trace s)) (trace t)"

fun checks_draining :: "event \<Rightarrow> bool" where
  "checks_draining Close = True"
| "checks_draining (On_connection_close c) = True"
| "checks_draining (On_timeout r) = True"
| "checks_draining e = False"

section \<open>Example configurations and states\<close>

text \<open>Concrete inputs on which the properties below are exercised. A pool with two
  ready-list entries: connection 0 is closing and has the larger capacity, connection 1
  is ready.\<close>

definition two_connections :: Pool where
  "two_connections =
     empty_Pool\<lparr>connections := [0, 1],
       conn := (\<lambda>c. if c = 0 then \<lparr>is_ready = False, is_closing = True, is_defunct = False,
                                    available_streams = 9\<rparr>
                     else \<lparr>is_ready = True, is_closing = False, is_defunct = False,
                           available_streams = 5\<rparr>)\<rparr>"

text \<open>A pool with two queued requests, both with a running timer; a \<open>PoolHandler\<close> that
  owns request 7 on connection 0; a response with an error payload "unprepared".\<close>

definition queued :: Pool where
  "queued = empty_Pool\<lparr>pending_request_queue := [7, 8], timer := [7 \<mapsto> 5, 8 \<mapsto> 5]\<rparr>"

definition in_flight :: PoolHandler where
  "in_flight = \<lparr>connection = 0, request_handler = Some 7\<rparr>"

definition unprepared :: Message where
  "unprepared = \<lparr>opcode = CQL_OPCODE_ERROR, body_code = CQL_ERROR_UNPREPARED\<rparr>"

text \<open>A configuration with room for two queued requests.\<close>

definition small_config :: Config where
  "small_config =
     \<lparr>core_connections_per_host = 1, max_connections_per_host = 2,
      max_simultaneous_creation = 1, max_pending_requests = 2, connect_timeout = 5\<rparr>"

text \<open>A connection object after its handshake, and one after an unrecoverable failure.
  The history \<open>used_up\<close>: the one connection of a pool becomes ready, is admitted, and
  closes without being defunct, which leaves an open pool with nothing in it.\<close>

definition ready_connection :: ClientConnection where
  "ready_connection =
     \<lparr>is_ready = True, is_closing = False, is_defunct = False, available_streams = 4\<rparr>"

definition defunct_connection :: ClientConnection where
  "defunct_connection =
     \<lparr>is_ready = False, is_closing = False, is_defunct = True, available_streams = 0\<rparr>"

definition used_up :: "event list" where
  "used_up = [Connection_changes 0 ready_connection, On_connection_connect 0 True,
              On_connection_close 0]"

text \<open>Two configurations whose initial population is above a ceiling, and a history of
  \<open>small_config\<close> in which the pool grows to its maximum of two connections.\<close>

definition core_above_max :: Config where
  "core_above_max =
     \<lparr>core_connections_per_host = 3, max_connections_per_host = 2,
      max_simultaneous_creation = 3, max_pending_requests = 2, connect_timeout = 5\<rparr>"

definition core_above_creation :: Config where
  "core_above_creation =
     \<lparr>core_connections_per_host = 2, max_connections_per_host = 2,
      max_simultaneous_creation = 1, max_pending_requests = 2, connect_timeout = 5\<rparr>"

definition growing :: "event list" where
  "growing = [Connection_changes 0 ready_connection, On_connection_connect 0 True,
              Borrow_connection, Borrow_connection, Wait_for_connection 7,
              Connection_changes 1 ready_connection, On_connection_connect 1 False,
              Borrow_connection]"

text \<open>A configuration with three initial connections, and a history of it: connection 0
  becomes ready and is admitted, then fails and its close completes while connections 1
  and 2 are still connecting; both then finish connecting, are closed by the closing
  pool, and their closes complete. A pool with three entries in its ready list:
  connection 0 defunct, connection 1 ready, connection 2 already closing.\<close>

definition three_core :: Config where
  "three_core =
     \<lparr>core_connections_per_host = 3, max_connections_per_host = 3,
      max_simultaneous_creation = 3, max_pending_requests = 2, connect_timeout = 5\<rparr>"

definition defunct_while_connecting :: "event list" where
  "defunct_while_connecting =
     [Connection_changes 0 ready_connection, On_connection_connect 0 True,
      Connection_changes 0 defunct_connection, On_connection_close 0,
      On_connection_connect 1 True, On_connection_connect 2 True,
      On_connection_close 1, On_connection_close 2]"

definition one_defunct :: Pool where
  "one_defunct =
     empty_Pool\<lparr>connections := [0, 1, 2],
       conn := (\<lambda>c. if c = 0 then defunct_connection
                     else if c = 1 then ready_connection
                     else \<lparr>is_ready = False, is_closing = True, is_defunct = False,
                           available_streams = 0\<rparr>)\<rparr>"

section \<open>Properties\<close>

subsection \<open>Reading a state after a call\<close>

lemma emit_fields:
  "connections (emit a s) = connections s"
  "connections_pending (emit a s) = connections_pending s"
  "pending_request_queue (emit a s) = pending_request_queue s"
  "pool_is_closing (emit a s) = pool_is_closing s"
  "conn (emit a s) = conn s"
  "next_connection (emit a s) = next_connection s"
  "timer (emit a s) = timer s"
  "trace (emit a s) = trace s @ [a]"
  by (simp_all add: emit_def)

lemma Connection_close_call_fields:
  "connections (Connection_close_call c s) = connections s"
  "connections_pending (Connection_close_call c s) = connections_pending s"
  "pending_request_queue (Connection_close_call c s) = pending_request_queue s"
  "pool_is_closing (Connection_close_call c s) = pool_is_closing s"
  "timer (Connection_close_call c s) = timer s"
  "trace (Connection_close_call c s) = trace s @ [Connection_close c]"
  "is_closing (conn (Connection_close_call c s) c)"
  by (simp_all add: Connection_close_call_def emit_fields)

subsection \<open>Least-busy selection\<close>

text \<open>What the scan of \<open>std::max_element\<close> returns under \<open>least_busy_comp\<close>: the first
  element of greatest capacity.\<close>

lemma max_element_from_first:
  fixes f :: "'a \<Rightarrow> nat"
  shows "\<exists>pre post. a # xs = pre @ max_element_from (\<lambda>a b. f a < f b) a xs # post
           \<and> (\<forall>c \<in> set pre. f c < f (max_element_from (\<lambda>a b. f a < f b) a xs))
           \<and> (\<forall>c \<in> set post. f c \<le> f (max_element_from (\<lambda>a b. f a < f b) a xs))"
proof (induction xs arbitrary: a)
  case Nil
  have "[a] = [] @ a # []" by simp
  then show ?case by (intro exI [of _ "[]"]) simp
next
  case (Cons y ys)
  define b where "b = (if f a < f y then y else a)"
  define m where "m = max_element_from (\<lambda>a b. f a < f b) b ys"
  have m: "max_element_from (\<lambda>a b. f a < f b) a (y # ys) = m"
    by (simp add: m_def b_def)
  from Cons.IH [of b] obtain pre post where
    split: "b # ys = pre @ m # post" and
    before: "\<forall>c \<in> set pre. f c < f m" and
    after: "\<forall>c \<in> set post. f c \<le> f m"
    unfolding m_def by blast
  have b_le: "f b \<le> f m"
  proof (cases pre)
    case Nil
    with split show ?thesis by simp
  next
    case (Cons p ps)
    with split have "b \<in> set pre" by simp
    with before show ?thesis by (simp add: less_imp_le)
  qed
  have "\<exists>pre post. a # y # ys = pre @ m # post
          \<and> (\<forall>c \<in> set pre. f c < f m) \<and> (\<forall>c \<in> set post. f c \<le> f m)"
  proof (cases "f a < f y")
    case True
    then have "b = y" by (simp add: b_def)
    with b_le True have "f a < f m" by simp
    with before have "\<forall>c \<in> set (a # pre). f c < f m" by simp
    moreover from split \<open>b = y\<close> have "a # y # ys = (a # pre) @ m # post" by simp
    ultimately show ?thesis using after by blast
  next
    case False
    then have "b = a" by (simp add: b_def)
    show ?thesis
    proof (cases pre)
      case Nil
      with split \<open>b = a\<close> have "a = m" and "ys = post" by simp_all
      with False have "f y \<le> f m" by simp
      with after have "\<forall>c \<in> set (y # post). f c \<le> f m" by simp
      moreover have "a # y # ys = [] @ m # (y # post)"
        using \<open>a = m\<close> \<open>ys = post\<close> by simp
      ultimately show ?thesis by (intro exI [of _ "[]"] exI [of _ "y # post"]) simp
    next
      case (Cons p ps)
      with split \<open>b = a\<close> have "p = a" and ys: "ys = ps @ m # post" by simp_all
      with before Cons have "f a < f m" by simp
      with False have "f y < f m" by simp
      with before Cons \<open>p = a\<close> have "\<forall>c \<in> set (a # y # ps). f c < f m" by simp
      moreover from ys have "a # y # ys = (a # y # ps) @ m # post" by simp
      ultimately show ?thesis using after by blast
    qed
  qed
  then show ?case unfolding m .
qed

text \<open>
  C10. \<open>find_least_busy\<close> takes the maximum of \<open>available_streams\<close> over the whole
  \<open>connections\<close> list, whatever the state of its members, and tests that single element
  (the first of greatest capacity) for readiness and nonzero capacity. So when that
  element is not ready or has no stream left, the result is "no connection", even if
  another connection of the list is ready with spare capacity (as in the example, where
  the closing connection 0 hides the ready connection 1).
\<close>

theorem find_least_busy_checks_only_the_maximum:
  assumes "connections s \<noteq> []"
  shows "\<exists>pre m post.
           connections s = pre @ m # post
         \<and> (\<forall>c \<in> set pre. available_streams (conn s c) < available_streams (conn s m))
         \<and> (\<forall>c \<in> set post. available_streams (conn s c) \<le> available_streams (conn s m))
         \<and> find_least_busy s =
             (if is_ready (conn s m) \<and> available_streams (conn s m) \<noteq> 0
              then Inr (Some m) else Inr None)"
proof -
  from assms obtain a xs where ax: "connections s = a # xs"
    by (cases "connections s") auto
  let ?f = "\<lambda>c. available_streams (conn s c)"
  let ?m = "max_element_from (\<lambda>a b. ?f a < ?f b) a xs"
  from max_element_from_first [of a xs ?f] obtain pre post where
    "a # xs = pre @ ?m # post" "\<forall>c \<in> set pre. ?f c < ?f ?m" "\<forall>c \<in> set post. ?f c \<le> ?f ?m"
    by blast
  moreover have "least_busy_comp s = (\<lambda>a b. ?f a < ?f b)"
    by (simp add: fun_eq_iff least_busy_comp_def)
  then have "find_least_busy s =
      (if is_ready (conn s ?m) \<and> ?f ?m \<noteq> 0 then Inr (Some ?m) else Inr None)"
    by (simp add: find_least_busy_def max_element_def ax)
  ultimately show ?thesis using ax by metis
qed

theorem find_least_busy_checks_only_the_maximum_witness:
  "connections two_connections \<noteq> []
   \<and> is_ready (conn two_connections 1) \<and> available_streams (conn two_connections 1) = 5
   \<and> find_least_busy two_connections = Inr None"
proof -
  have ne: "connections two_connections \<noteq> []"
    by (simp add: two_connections_def empty_Pool_def)
  from find_least_busy_checks_only_the_maximum [OF ne] obtain pre m post where
    split: "connections two_connections = pre @ m # post" and
    before: "\<forall>c \<in> set pre. available_streams (conn two_connections c)
                 < available_streams (conn two_connections m)" and
    res: "find_least_busy two_connections =
            (if is_ready (conn two_connections m) \<and> available_streams (conn two_connections m) \<noteq> 0
             then Inr (Some m) else Inr None)"
    by blast
  have "m = 0"
  proof (cases pre)
    case Nil
    with split show ?thesis by (simp add: two_connections_def empty_Pool_def)
  next
    case (Cons p ps)
    with split have "p = 0" by (simp add: two_connections_def empty_Pool_def)
    with before Cons have "9 < available_streams (conn two_connections m)"
      by (simp add: two_connections_def empty_Pool_def)
    moreover have "available_streams (conn two_connections m) \<le> 9"
      by (simp add: two_connections_def empty_Pool_def)
    ultimately show ?thesis by simp
  qed
  with res have "find_least_busy two_connections = Inr None"
    by (simp add: two_connections_def empty_Pool_def)
  with ne show ?thesis by (simp add: two_connections_def empty_Pool_def)
qed

subsection \<open>Dispatching a queued request\<close>

lemma execute_pending_request_trace:
  "trace (execute_pending_request c accepted s) =
     trace s @
     (case pending_request_queue s of
        [] \<Rightarrow> []
      | r # rest \<Rightarrow>
          (if timer s r \<noteq> None then [Timer_stop r] else [])
          @ [Connection_execute c (new_PoolHandler c r)]
          @ (if accepted then [] else [retry_callback (Some r) RETRY_WITH_NEXT_HOST]))"
  by (cases "pending_request_queue s")
     (simp_all add: execute_pending_request_def execute_def emit_fields Let_def)

lemma execute_pending_request_quiet:
  "\<exists>ext. trace (execute_pending_request c accepted s) = trace s @ ext
         \<and> \<not> list_ex is_request_call ext"
  unfolding execute_pending_request_trace
  by (cases "pending_request_queue s") simp_all

lemma finish_request_quiet:
  "\<exists>ext. trace (finish_request h accepted s) = trace s @ ext \<and> \<not> list_ex is_request_call ext"
  using execute_pending_request_quiet [of "connection h" accepted s]
  by (simp add: finish_request_def)

text \<open>
  C9. With a non-empty queue, \<open>execute_pending_request\<close> removes exactly the head of the
  queue, stops that request's timer (when it has one) before the dispatch, and
  dispatches the request on the given connection in a new \<open>PoolHandler\<close>; when the
  transport rejects the dispatch the retry callback fires for the request with
  \<open>RETRY_WITH_NEXT_HOST\<close>, and the request is not put back: the queue is the old tail in
  both cases. With an empty queue the state is unchanged.
\<close>

theorem execute_pending_request_pops_head:
  "(pending_request_queue s = [] \<longrightarrow> execute_pending_request c accepted s = s)
   \<and> (\<forall>r rest. pending_request_queue s = r # rest \<longrightarrow>
          pending_request_queue (execute_pending_request c accepted s) = rest
        \<and> timer (execute_pending_request c accepted s) = (timer s)(r := None)
        \<and> trace (execute_pending_request c accepted s) =
            trace s
            @ (if timer s r \<noteq> None then [Timer_stop r] else [])
            @ [Connection_execute c (new_PoolHandler c r)]
            @ (if accepted then [] else [retry_callback (Some r) RETRY_WITH_NEXT_HOST])
        \<and> connections (execute_pending_request c accepted s) = connections s
        \<and> connections_pending (execute_pending_request c accepted s) = connections_pending s
        \<and> pool_is_closing (execute_pending_request c accepted s) = pool_is_closing s
        \<and> conn (execute_pending_request c accepted s) = conn s)"
proof (cases "pending_request_queue s")
  case Nil
  then show ?thesis by (simp add: execute_pending_request_def)
next
  case (Cons r rest)
  then show ?thesis
    by (simp add: execute_pending_request_def execute_def emit_fields Let_def fun_upd_idem)
qed

theorem execute_pending_request_pops_head_witness:
  "pending_request_queue queued = [7, 8]
   \<and> pending_request_queue (execute_pending_request 0 False queued) = [8]
   \<and> timer (execute_pending_request 0 False queued) 7 = None
   \<and> trace (execute_pending_request 0 False queued) =
       [Timer_stop 7, Connection_execute 0 (new_PoolHandler 0 7),
        retry_callback (Some 7) RETRY_WITH_NEXT_HOST]
   \<and> execute_pending_request 0 False empty_Pool = empty_Pool"
proof -
  have q: "pending_request_queue queued = [7, 8]"
    by (simp add: queued_def empty_Pool_def)
  have e: "pending_request_queue empty_Pool = []"
    by (simp add: empty_Pool_def)
  from execute_pending_request_pops_head [of queued 0 False] q
  have "pending_request_queue (execute_pending_request 0 False queued) = [8]"
    and "timer (execute_pending_request 0 False queued) = (timer queued)(7 := None)"
    and "trace (execute_pending_request 0 False queued) =
           trace queued @ (if timer queued 7 \<noteq> None then [Timer_stop 7] else [])
           @ [Connection_execute 0 (new_PoolHandler 0 7)]
           @ (if False then [] else [retry_callback (Some 7) RETRY_WITH_NEXT_HOST])"
    by simp_all
  moreover from execute_pending_request_pops_head [of empty_Pool 0 False] e
  have "execute_pending_request 0 False empty_Pool = empty_Pool" by simp
  ultimately show ?thesis using q by (simp add: queued_def empty_Pool_def)
qed


subsection \<open>The response router\<close>

text \<open>
  C6. A response with opcode \<open>CQL_OPCODE_ERROR\<close> whose body carries
  \<open>CQL_ERROR_UNPREPARED\<close>, delivered to a \<open>PoolHandler\<close> that owns request \<open>r\<close>: the
  handler's first and only own action is to execute a new \<open>PrepareHandler\<close> holding \<open>r\<close> on
  its own connection; the handler no longer owns \<open>r\<close> afterwards (the pointer was
  released, not copied); and nothing that follows in the call (\<open>finish_request\<close>) is a
  call of a request handler, so the caller receives neither a result nor an error.
\<close>

theorem unprepared_response_is_retried_not_delivered:
  assumes "opcode response = CQL_OPCODE_ERROR"
    and "body_code response = CQL_ERROR_UNPREPARED"
    and "request_handler h = Some r"
  shows "\<exists>s1 ext.
           PoolHandler_on_set h response accepted s = Inr (h\<lparr>request_handler := None\<rparr>, s1)
         \<and> trace s1 =
             trace s @ Connection_execute (connection h) (new_PrepareHandler (Some r)) # ext
         \<and> \<not> list_ex is_request_call ext"
proof -
  let ?h1 = "h\<lparr>request_handler := None\<rparr>"
  let ?s0 = "emit (Connection_execute (connection h) (new_PrepareHandler (Some r))) s"
  have res: "PoolHandler_on_set h response accepted s = Inr (?h1, finish_request ?h1 accepted ?s0)"
    using assms by (simp add: PoolHandler_on_set_def on_error_response_def)
  from finish_request_quiet [of ?h1 accepted ?s0] obtain ext where
    "trace (finish_request ?h1 accepted ?s0) = trace ?s0 @ ext" "\<not> list_ex is_request_call ext"
    by blast
  then have "trace (finish_request ?h1 accepted ?s0) =
      trace s @ Connection_execute (connection h) (new_PrepareHandler (Some r)) # ext"
    by (simp add: emit_fields)
  with res \<open>\<not> list_ex is_request_call ext\<close> show ?thesis by blast
qed

theorem unprepared_response_is_retried_not_delivered_witness:
  "opcode unprepared = CQL_OPCODE_ERROR \<and> body_code unprepared = CQL_ERROR_UNPREPARED
   \<and> request_handler in_flight = Some 7
   \<and> (\<exists>s1. PoolHandler_on_set in_flight unprepared True empty_Pool
              = Inr (\<lparr>connection = 0, request_handler = None\<rparr>, s1)
          \<and> hd (trace s1) = Connection_execute 0 (new_PrepareHandler (Some 7)))"
proof -
  have a: "opcode unprepared = CQL_OPCODE_ERROR" "body_code unprepared = CQL_ERROR_UNPREPARED"
    by (simp_all add: unprepared_def)
  have b: "request_handler in_flight = Some 7" by (simp add: in_flight_def)
  from unprepared_response_is_retried_not_delivered [OF a b, of True empty_Pool]
  obtain s1 ext where
    "PoolHandler_on_set in_flight unprepared True empty_Pool
       = Inr (in_flight\<lparr>request_handler := None\<rparr>, s1)"
    "trace s1 = trace empty_Pool
       @ Connection_execute (connection in_flight) (new_PrepareHandler (Some 7)) # ext"
    by blast
  then have "PoolHandler_on_set in_flight unprepared True empty_Pool
       = Inr (\<lparr>connection = 0, request_handler = None\<rparr>, s1)
     \<and> hd (trace s1) = Connection_execute 0 (new_PrepareHandler (Some 7))"
    by (simp add: in_flight_def empty_Pool_def)
  then show ?thesis using a b by blast
qed

text \<open>
  C7. A transport error delivered to a \<open>PoolHandler\<close> that owns request \<open>r\<close>: when the code
  is \<open>CASS_ERROR_LIB_WRITE_ERROR\<close> the retry callback fires for \<open>r\<close> with
  \<open>RETRY_WITH_NEXT_HOST\<close> and no request handler is called during the call; with any
  other code the error is forwarded to the request handler of \<open>r\<close>, code and message
  unchanged, before anything else.
\<close>

theorem write_error_is_retried_others_forwarded:
  assumes "request_handler h = Some r"
  shows "\<exists>s1 ext.
           PoolHandler_on_error h code message accepted s = Inr (h, s1)
         \<and> trace s1 =
             trace s
             @ (if code = CASS_ERROR_LIB_WRITE_ERROR
                then retry_callback (Some r) RETRY_WITH_NEXT_HOST
                else Request_on_error r code message) # ext
         \<and> \<not> list_ex is_request_call ext"
proof -
  let ?a = "if code = CASS_ERROR_LIB_WRITE_ERROR
            then retry_callback (Some r) RETRY_WITH_NEXT_HOST
            else Request_on_error r code message"
  have res: "PoolHandler_on_error h code message accepted s
               = Inr (h, finish_request h accepted (emit ?a s))"
    using assms by (simp add: PoolHandler_on_error_def)
  from finish_request_quiet [of h accepted "emit ?a s"] obtain ext where
    "trace (finish_request h accepted (emit ?a s)) = trace (emit ?a s) @ ext"
    "\<not> list_ex is_request_call ext"
    by blast
  then have "trace (finish_request h accepted (emit ?a s)) = trace s @ ?a # ext"
    by (simp add: emit_fields)
  with res \<open>\<not> list_ex is_request_call ext\<close> show ?thesis by blast
qed

theorem write_error_is_retried_others_forwarded_witness:
  "request_handler in_flight = Some 7
   \<and> (\<exists>s1. PoolHandler_on_error in_flight CASS_ERROR_LIB_WRITE_ERROR ''broken pipe'' True empty_Pool
              = Inr (in_flight, s1)
          \<and> trace s1 = [retry_callback (Some 7) RETRY_WITH_NEXT_HOST])
   \<and> (\<exists>s1. PoolHandler_on_error in_flight (CASS_ERROR_OTHER 3) ''no hosts'' True empty_Pool
              = Inr (in_flight, s1)
          \<and> trace s1 = [Request_on_error 7 (CASS_ERROR_OTHER 3) ''no hosts''])"
proof -
  have b: "request_handler in_flight = Some 7" by (simp add: in_flight_def)
  have quiet: "trace (finish_request in_flight True (emit a empty_Pool)) = [a]" for a
    by (simp add: finish_request_def in_flight_def empty_Pool_def emit_def
        new_ClientConnection_def)
  from write_error_is_retried_others_forwarded
         [OF b, of CASS_ERROR_LIB_WRITE_ERROR "''broken pipe''" True empty_Pool]
  obtain s1 where 1:
    "PoolHandler_on_error in_flight CASS_ERROR_LIB_WRITE_ERROR ''broken pipe'' True empty_Pool
       = Inr (in_flight, s1)"
    by blast
  then have "trace s1 = [retry_callback (Some 7) RETRY_WITH_NEXT_HOST]"
    using quiet by (auto simp add: PoolHandler_on_error_def in_flight_def)
  moreover
  from write_error_is_retried_others_forwarded
         [OF b, of "CASS_ERROR_OTHER 3" "''no hosts''" True empty_Pool]
  obtain s2 where 2:
    "PoolHandler_on_error in_flight (CASS_ERROR_OTHER 3) ''no hosts'' True empty_Pool
       = Inr (in_flight, s2)"
    by blast
  then have "trace s2 = [Request_on_error 7 (CASS_ERROR_OTHER 3) ''no hosts'']"
    using quiet by (auto simp add: PoolHandler_on_error_def in_flight_def)
  ultimately show ?thesis using b 1 2 by blast
qed

subsection \<open>What each operation leaves alone\<close>

lemma fold_Connection_close_call_fields:
  "connections (fold Connection_close_call cs s) = connections s"
  "connections_pending (fold Connection_close_call cs s) = connections_pending s"
  "pending_request_queue (fold Connection_close_call cs s) = pending_request_queue s"
  "pool_is_closing (fold Connection_close_call cs s) = pool_is_closing s"
  "trace (fold Connection_close_call cs s) = trace s @ map Connection_close cs"
  by (induction cs arbitrary: s) (simp_all add: Connection_close_call_fields)

lemma close_if_not_closing_fields:
  "connections (close_if_not_closing c s) = connections s"
  "connections_pending (close_if_not_closing c s) = connections_pending s"
  "pending_request_queue (close_if_not_closing c s) = pending_request_queue s"
  "pool_is_closing (close_if_not_closing c s) = pool_is_closing s"
  by (simp_all add: close_if_not_closing_def Connection_close_call_fields)

lemma fold_close_if_not_closing_fields:
  "connections (fold close_if_not_closing cs s) = connections s"
  "connections_pending (fold close_if_not_closing cs s) = connections_pending s"
  "pending_request_queue (fold close_if_not_closing cs s) = pending_request_queue s"
  "pool_is_closing (fold close_if_not_closing cs s) = pool_is_closing s"
  by (induction cs arbitrary: s) (simp_all add: close_if_not_closing_fields)

lemma maybe_close_fields:
  "connections (maybe_close s) = connections s"
  "connections_pending (maybe_close s) = connections_pending s"
  "pending_request_queue (maybe_close s) = pending_request_queue s"
  "pool_is_closing (maybe_close s) = pool_is_closing s"
  by (simp_all add: maybe_close_def Let_def fold_close_if_not_closing_fields emit_fields)

lemma close_fields:
  "connections (close s) = connections s"
  "connections_pending (close s) = connections_pending s"
  "pending_request_queue (close s) = pending_request_queue s"
  "pool_is_closing (close s)"
  by (simp_all add: close_def Let_def maybe_close_fields fold_Connection_close_call_fields)

lemma spawn_connection_fields:
  "connections (spawn_connection s) = connections s"
  "pending_request_queue (spawn_connection s) = pending_request_queue s"
  "pool_is_closing (spawn_connection s) = pool_is_closing s"
  "length (connections_pending (spawn_connection s)) =
     (if pool_is_closing s then length (connections_pending s)
      else Suc (length (connections_pending s)))"
  by (simp_all add: spawn_connection_def Let_def emit_fields)

lemma spawn_connections_fields:
  "connections (spawn_connections n s) = connections s"
  "pending_request_queue (spawn_connections n s) = pending_request_queue s"
  "pool_is_closing (spawn_connections n s) = pool_is_closing s"
  "length (connections_pending (spawn_connections n s)) =
     (if pool_is_closing s then length (connections_pending s)
      else n + length (connections_pending s))"
  by (induction n arbitrary: s) (simp_all add: spawn_connection_fields)

lemma maybe_spawn_connection_fields:
  "connections (maybe_spawn_connection config s) = connections s"
  "pending_request_queue (maybe_spawn_connection config s) = pending_request_queue s"
  "pool_is_closing (maybe_spawn_connection config s) = pool_is_closing s"
  by (simp_all add: maybe_spawn_connection_def spawn_connection_fields)

lemma execute_pending_request_fields:
  "connections (execute_pending_request c accepted s) = connections s"
  "connections_pending (execute_pending_request c accepted s) = connections_pending s"
  "pool_is_closing (execute_pending_request c accepted s) = pool_is_closing s"
  "pending_request_queue (execute_pending_request c accepted s) = tl (pending_request_queue s)"
  by (cases "pending_request_queue s";
      simp add: execute_pending_request_def execute_def emit_fields Let_def)+

lemma finish_request_fields:
  "connections (finish_request h accepted s) = connections s"
  "connections_pending (finish_request h accepted s) = connections_pending s"
  "pool_is_closing (finish_request h accepted s) = pool_is_closing s"
  "length (pending_request_queue (finish_request h accepted s)) \<le> length (pending_request_queue s)"
  by (simp_all add: finish_request_def execute_pending_request_fields)

lemma Connection_defunct_call_fields:
  "connections (Connection_defunct_call c s) = connections s"
  "connections_pending (Connection_defunct_call c s) = connections_pending s"
  "pending_request_queue (Connection_defunct_call c s) = pending_request_queue s"
  "pool_is_closing (Connection_defunct_call c s) = pool_is_closing s"
  by (simp_all add: Connection_defunct_call_def emit_fields)

text \<open>The three callbacks of a \<open>PoolHandler\<close> touch the pool only through
  \<open>finish_request\<close>.\<close>

lemma same_lists_finish: 
  assumes "connections t = connections s" "connections_pending t = connections_pending s"
     "pool_is_closing t = pool_is_closing s" "pending_request_queue t = pending_request_queue s"
  shows "same_lists s (finish_request h accepted t)"
  using assms finish_request_fields [of h accepted t] by (simp add: same_lists_def)

lemma PoolHandler_on_set_lists:
  "PoolHandler_on_set h response accepted s = Inr (h1, t) \<Longrightarrow> same_lists s t"
  by (auto simp add: PoolHandler_on_set_def on_error_response_def request_on_set_def
      emit_fields Connection_defunct_call_fields
      split: cql_opcode.splits cql_error.splits option.splits intro!: same_lists_finish)

lemma PoolHandler_on_error_lists:
  "PoolHandler_on_error h code message accepted s = Inr (h1, t) \<Longrightarrow> same_lists s t"
  by (auto simp add: PoolHandler_on_error_def emit_fields
      split: if_splits option.splits intro!: same_lists_finish)

lemma PoolHandler_on_timeout_lists:
  "PoolHandler_on_timeout h accepted s = Inr (h1, t) \<Longrightarrow> same_lists s t"
  by (auto simp add: PoolHandler_on_timeout_def emit_fields
      split: option.splits intro!: same_lists_finish)


subsection \<open>Queue admission\<close>

lemma dropping_Inr: "dropping res = Inr t \<longleftrightarrow> (\<exists>x. res = Inr (x, t))"
  by (cases res) (auto simp add: dropping_def)

lemma length_removeAll_le: "length (removeAll x xs) \<le> length xs"
  unfolding removeAll_filter_not_eq by (rule length_filter_le)

lemma step_queue_length:
  assumes "step config e s = Inr t"
    and "length (pending_request_queue s) \<le> max_pending_requests config"
  shows "length (pending_request_queue t) \<le> max_pending_requests config"
proof (cases e)
  case Borrow_connection
  with assms show ?thesis
    by (auto simp add: dropping_Inr borrow_connection_def Let_def spawn_connections_fields
        maybe_spawn_connection_fields split: if_splits sum.splits)
next
  case (Wait_for_connection r)
  with assms show ?thesis
    by (auto simp add: wait_for_connection_def Let_def emit_fields split: if_splits)
next
  case (Execute c r accepted)
  with assms show ?thesis by (auto simp add: execute_def emit_fields)
next
  case Close
  with assms show ?thesis by (auto simp add: close_fields)
next
  case (On_connection_connect c accepted)
  with assms show ?thesis
    by (auto simp add: on_connection_connect_def Let_def emit_fields
        Connection_close_call_fields execute_pending_request_fields)
next
  case (On_connection_close c)
  with assms show ?thesis
    by (auto simp add: on_connection_close_def Let_def maybe_close_fields)
next
  case (On_timeout r)
  have "length (removeAll r (pending_request_queue s)) \<le> max_pending_requests config"
    using length_removeAll_le assms(2) by (rule le_trans)
  with On_timeout assms show ?thesis
    by (auto simp add: on_timeout_def Let_def maybe_close_fields emit_fields)
next
  case (Handler_on_set h response accepted)
  with assms obtain h1 where "PoolHandler_on_set h response accepted s = Inr (h1, t)"
    by (auto simp add: dropping_Inr)
  from PoolHandler_on_set_lists [OF this] assms(2) show ?thesis
    by (simp add: same_lists_def)
next
  case (Handler_on_error h code message accepted)
  with assms obtain h1 where "PoolHandler_on_error h code message accepted s = Inr (h1, t)"
    by (auto simp add: dropping_Inr)
  from PoolHandler_on_error_lists [OF this] assms(2) show ?thesis
    by (simp add: same_lists_def)
next
  case (Handler_on_timeout h accepted)
  with assms obtain h1 where "PoolHandler_on_timeout h accepted s = Inr (h1, t)"
    by (auto simp add: dropping_Inr)
  from PoolHandler_on_timeout_lists [OF this] assms(2) show ?thesis
    by (simp add: same_lists_def)
next
  case (Connection_changes c cc)
  with assms show ?thesis by auto
qed

lemma run_queue_length:
  assumes "run config es s = Inr t"
    and "length (pending_request_queue s) \<le> max_pending_requests config"
  shows "length (pending_request_queue t) \<le> max_pending_requests config"
  using assms
proof (induction es arbitrary: s)
  case Nil
  then show ?case by simp
next
  case (Cons e es)
  from Cons.prems(1) obtain s1 where
    first: "step config e s = Inr s1" and rest: "run config es s1 = Inr t"
    by (auto split: sum.splits)
  from step_queue_length [OF first Cons.prems(2)] rest show ?case
    by (rule Cons.IH [rotated])
qed

lemma Pool_ctor_queue: "pending_request_queue (Pool_ctor config) = []"
  by (simp add: Pool_ctor_def spawn_connections_fields empty_Pool_def)

text \<open>
  C4. In every state a pool reaches from its construction, \<open>wait_for_connection\<close> returns
  false and leaves the state as it is exactly when the pool is closing or the queue
  length equals \<open>max_pending_requests\<close>; otherwise it starts a timer of
  \<open>connect_timeout\<close> for the request, appends the request at the tail of the queue and
  returns true. The source tests \<open>size() + 1 > max_pending_requests\<close>; the queue of a
  reachable state is never longer than the limit, so the test is the equality.
\<close>

theorem wait_for_connection_admission:
  assumes "run config es (Pool_ctor config) = Inr s"
  shows "wait_for_connection config r s =
           (if pool_is_closing s
               \<or> length (pending_request_queue s) = max_pending_requests config
            then (False, s)
            else (True, s\<lparr>trace := trace s @ [Timer_start r (connect_timeout config)],
                           timer := (timer s)(r \<mapsto> connect_timeout config),
                           pending_request_queue := pending_request_queue s @ [r]\<rparr>))
         \<and> length (pending_request_queue s) \<le> max_pending_requests config"
proof -
  have "length (pending_request_queue s) \<le> max_pending_requests config"
    using assms by (rule run_queue_length) (simp add: Pool_ctor_queue)
  then show ?thesis
    by (auto simp add: wait_for_connection_def Let_def emit_def)
qed

theorem wait_for_connection_admission_witness:
  "(\<exists>s. run small_config [Wait_for_connection 7] (Pool_ctor small_config) = Inr s
       \<and> length (pending_request_queue s) = 1
       \<and> fst (wait_for_connection small_config 8 s) = True
       \<and> pending_request_queue (snd (wait_for_connection small_config 8 s)) = [7, 8]
       \<and> timer (snd (wait_for_connection small_config 8 s)) 8 = Some 5)
   \<and> (\<exists>s. run small_config [Wait_for_connection 7, Wait_for_connection 8]
             (Pool_ctor small_config) = Inr s
       \<and> length (pending_request_queue s) = 2
       \<and> wait_for_connection small_config 9 s = (False, s))"
proof -
  define s1 where "s1 = snd (wait_for_connection small_config 7 (Pool_ctor small_config))"
  define s2 where "s2 = snd (wait_for_connection small_config 8 s1)"
  have r1: "run small_config [Wait_for_connection 7] (Pool_ctor small_config) = Inr s1"
    by (simp add: s1_def)
  have r2: "run small_config [Wait_for_connection 7, Wait_for_connection 8]
              (Pool_ctor small_config) = Inr s2"
    by (simp add: s1_def s2_def)
  have q1: "pending_request_queue s1 = [7]" and c1: "\<not> pool_is_closing s1"
    by (simp_all add: s1_def wait_for_connection_def Pool_ctor_def small_config_def
        empty_Pool_def spawn_connection_def emit_def Let_def)
  have q2: "pending_request_queue s2 = [7, 8]" and c2: "\<not> pool_is_closing s2"
    using q1 c1
    by (simp_all add: s2_def wait_for_connection_def small_config_def emit_def Let_def)
  have m: "max_pending_requests small_config = 2" "connect_timeout small_config = 5"
    by (simp_all add: small_config_def)
  from wait_for_connection_admission [OF r1, of 8] q1 c1 m
  have "fst (wait_for_connection small_config 8 s1) = True
      \<and> pending_request_queue (snd (wait_for_connection small_config 8 s1)) = [7, 8]
      \<and> timer (snd (wait_for_connection small_config 8 s1)) 8 = Some 5"
    by simp
  moreover from wait_for_connection_admission [OF r2, of 9] q2 c2 m
  have "wait_for_connection small_config 9 s2 = (False, s2)" by simp
  ultimately show ?thesis using r1 r2 q1 q2 by auto
qed

subsection \<open>Close notifications\<close>

lemma close_notifications_emit:
  "close_notifications (emit a s) = close_notifications s + (if a = close_callback then 1 else 0)"
  by (simp add: close_notifications_def emit_fields)

lemma close_notifications_Connection_close_call:
  "close_notifications (Connection_close_call c s) = close_notifications s"
  by (simp add: close_notifications_def Connection_close_call_fields)

lemma close_notifications_fold_close:
  "close_notifications (fold Connection_close_call cs s) = close_notifications s"
  by (induction cs arbitrary: s) (simp_all add: close_notifications_Connection_close_call)

lemma close_notifications_fold_close_if:
  "close_notifications (fold close_if_not_closing cs s) = close_notifications s"
  by (induction cs arbitrary: s)
     (simp_all add: close_if_not_closing_def close_notifications_Connection_close_call)

lemma drained_fold_close_if: "drained (fold close_if_not_closing cs s) = drained s"
  by (simp add: drained_def fold_close_if_not_closing_fields)

lemma close_notifications_maybe_close:
  "close_notifications (maybe_close s) =
     close_notifications s + (if pool_is_closing s \<and> drained s then 1 else 0)"
  using drained_fold_close_if [of "connections s" s]
  by (simp add: maybe_close_def Let_def close_notifications_emit
      close_notifications_fold_close_if drained_def)

lemma close_notifications_close:
  "close_notifications (close s) = close_notifications s + (if drained s then 1 else 0)"
proof -
  let ?s1 = "s\<lparr>pool_is_closing := True\<rparr>"
  let ?s2 = "fold Connection_close_call (connections ?s1) ?s1"
  have "drained ?s2 = drained s"
    by (simp add: drained_def fold_Connection_close_call_fields)
  moreover have "pool_is_closing ?s2"
    by (simp add: fold_Connection_close_call_fields)
  moreover have "close_notifications ?s2 = close_notifications s"
    by (simp add: close_notifications_fold_close) (simp add: close_notifications_def)
  ultimately show ?thesis
    by (simp add: close_def Let_def close_notifications_maybe_close)
qed

lemma drained_close: "drained (close s) = drained s"
  by (simp add: drained_def close_fields)

text \<open>
  C3, as stated, fails: nothing in the pool records that the close notification has
  fired, and every \<open>close()\<close> ends in \<open>maybe_close()\<close>. On a pool whose one connection
  has come and gone, two calls of \<open>close()\<close> fire the notification twice.
\<close>

theorem close_twice_counterexample:
  "observe close_notifications
     (run small_config (used_up @ [Close, Close]) (Pool_ctor small_config)) = Some 2"
  by (simp add: observe_def used_up_def small_config_def Pool_ctor_def empty_Pool_def spawn_connection_def
      emit_def Let_def ready_connection_def on_connection_connect_def on_connection_close_def
      execute_pending_request_def maybe_close_def close_def close_notifications_def
      new_ClientConnection_def)

text \<open>
  C3, amended. Each call of \<open>close()\<close> fires the close notification once when the ready
  list, the pending list and the queue are all empty at the call, and not at all
  otherwise: two calls in a row fire it twice on a drained pool and never on a pool that
  is not drained.
\<close>

theorem close_twice_notifies_per_call:
  "close_notifications (close (close s)) =
     close_notifications s + (if drained s then 2 else 0)"
  by (simp add: close_notifications_close drained_close)

theorem close_twice_notifies_per_call_witness:
  "drained empty_Pool \<and> close_notifications (close (close empty_Pool)) = 2
   \<and> \<not> drained two_connections \<and> close_notifications (close (close two_connections)) = 0"
  using close_twice_notifies_per_call [of empty_Pool]
    close_twice_notifies_per_call [of two_connections]
  by (simp add: drained_def close_notifications_def empty_Pool_def two_connections_def)


subsection \<open>Selection on an empty ready set\<close>

lemma find_least_busy_error:
  "find_least_busy s = Inl e \<longleftrightarrow> connections s = [] \<and> e = DEREF_END_ITERATOR"
  by (cases "connections s") (auto simp add: find_least_busy_def max_element_def)

text \<open>
  C5, as stated, fails: \<open>find_least_busy\<close> has no test for an empty list. On the empty
  ready list of a pool just constructed, \<open>std::max_element\<close> returns the end iterator
  and \<open>(*it)->is_ready()\<close> dereferences it.
\<close>

theorem find_least_busy_empty_counterexample:
  "connections (Pool_ctor small_config) = []
   \<and> find_least_busy (Pool_ctor small_config) = Inl DEREF_END_ITERATOR"
  by (simp add: find_least_busy_error Pool_ctor_def spawn_connections_fields empty_Pool_def)

text \<open>
  C5, amended. The guard is in the caller: \<open>borrow_connection\<close> returns "no connection"
  when the ready list is empty, before \<open>find_least_busy\<close> is reached, and in no state
  does \<open>borrow_connection\<close> dereference the end iterator; \<open>find_least_busy\<close> called on
  its own does so exactly when the ready list is empty.
\<close>

theorem borrow_connection_guards_empty_ready_set:
  "(connections s = [] \<longrightarrow> (\<exists>t. borrow_connection config s = Inr (None, t)))
   \<and> borrow_connection config s \<noteq> Inl e
   \<and> (find_least_busy s = Inl DEREF_END_ITERATOR \<longleftrightarrow> connections s = [])"
proof -
  have "connections s \<noteq> [] \<Longrightarrow> find_least_busy (maybe_spawn_connection config s) \<noteq> Inl e"
    by (simp add: find_least_busy_error maybe_spawn_connection_fields)
  then show ?thesis
    by (auto simp add: borrow_connection_def Let_def find_least_busy_error split: sum.splits)
qed

theorem borrow_connection_guards_empty_ready_set_witness:
  "connections (Pool_ctor small_config) = []
   \<and> (\<exists>t. borrow_connection small_config (Pool_ctor small_config) = Inr (None, t))"
proof -
  have "connections (Pool_ctor small_config) = []"
    by (simp add: Pool_ctor_def spawn_connections_fields empty_Pool_def)
  with borrow_connection_guards_empty_ready_set [of "Pool_ctor small_config" small_config]
  show ?thesis by simp
qed

subsection \<open>The two ceilings on connections\<close>

lemma Pool_ctor_lists:
  "connections (Pool_ctor config) = []"
  "length (connections_pending (Pool_ctor config)) = core_connections_per_host config"
  "\<not> pool_is_closing (Pool_ctor config)"
  by (simp_all add: Pool_ctor_def spawn_connections_fields empty_Pool_def)

lemma maybe_spawn_connection_pending:
  "length (connections_pending s) \<le> max_simultaneous_creation config \<Longrightarrow>
   length (connections_pending (maybe_spawn_connection config s)) \<le> max_simultaneous_creation config"
  by (simp add: maybe_spawn_connection_def spawn_connection_fields)

lemma maybe_spawn_connection_live:
  "live_connections s \<le> max_connections_per_host config \<Longrightarrow>
   live_connections (maybe_spawn_connection config s) \<le> max_connections_per_host config"
  by (simp add: live_connections_def maybe_spawn_connection_def spawn_connection_fields)

lemma borrow_connection_cases:
  assumes "borrow_connection config s = Inr (found, t)"
    and "borrows_from_ready Borrow_connection s"
  shows "t = s \<or> t = maybe_spawn_connection config s"
  using assms by (auto simp add: borrow_connection_def Let_def split: if_splits sum.splits)

lemma on_connection_connect_pending:
  "length (connections_pending (on_connection_connect c accepted s))
     \<le> length (connections_pending s)"
  by (simp add: on_connection_connect_def Let_def emit_fields Connection_close_call_fields
      execute_pending_request_fields length_removeAll_le)

lemma on_connection_connect_live:
  assumes "c \<in> set (connections_pending s)"
  shows "live_connections (on_connection_connect c accepted s) \<le> live_connections s"
proof -
  from assms have "Suc (length (removeAll c (connections_pending s)))
      \<le> length (connections_pending s)"
    by (simp add: Suc_le_eq length_removeAll_less)
  then show ?thesis
    by (simp add: live_connections_def on_connection_connect_def Let_def emit_fields
        Connection_close_call_fields execute_pending_request_fields)
qed

lemma on_connection_close_lists:
  "connections_pending (on_connection_close c s) = connections_pending s"
  "length (connections (on_connection_close c s)) \<le> length (connections s)"
  by (simp_all add: on_connection_close_def Let_def maybe_close_fields length_removeAll_le)

lemma on_timeout_lists:
  "connections_pending (on_timeout r s) = connections_pending s"
  "connections (on_timeout r s) = connections s"
  by (simp_all add: on_timeout_def Let_def maybe_close_fields emit_fields)

lemma wait_for_connection_lists:
  "connections_pending (snd (wait_for_connection config r s)) = connections_pending s"
  "connections (snd (wait_for_connection config r s)) = connections s"
  by (simp_all add: wait_for_connection_def Let_def emit_fields)

lemma step_pending:
  assumes "step config e s = Inr t" and "borrows_from_ready e s"
    and "length (connections_pending s) \<le> max_simultaneous_creation config"
  shows "length (connections_pending t) \<le> max_simultaneous_creation config"
proof (cases e)
  case Borrow_connection
  with assms(1) obtain found where "borrow_connection config s = Inr (found, t)"
    by (auto simp add: dropping_Inr)
  from borrow_connection_cases [OF this] assms(2) Borrow_connection
  have "t = s \<or> t = maybe_spawn_connection config s" by simp
  with assms(3) show ?thesis by (auto simp add: maybe_spawn_connection_pending)
next
  case (Wait_for_connection r)
  with assms show ?thesis by (auto simp add: wait_for_connection_lists)
next
  case (Execute c r accepted)
  with assms show ?thesis by (auto simp add: execute_def emit_fields)
next
  case Close
  with assms show ?thesis by (auto simp add: close_fields)
next
  case (On_connection_connect c accepted)
  with assms(1) have "t = on_connection_connect c accepted s" by simp
  with on_connection_connect_pending [of c accepted s] assms(3) show ?thesis by simp
next
  case (On_connection_close c)
  with assms show ?thesis by (auto simp add: on_connection_close_lists)
next
  case (On_timeout r)
  with assms show ?thesis by (auto simp add: on_timeout_lists)
next
  case (Handler_on_set h response accepted)
  with assms obtain h1 where "PoolHandler_on_set h response accepted s = Inr (h1, t)"
    by (auto simp add: dropping_Inr)
  from PoolHandler_on_set_lists [OF this] assms(3) show ?thesis
    by (simp add: same_lists_def)
next
  case (Handler_on_error h code message accepted)
  with assms obtain h1 where "PoolHandler_on_error h code message accepted s = Inr (h1, t)"
    by (auto simp add: dropping_Inr)
  from PoolHandler_on_error_lists [OF this] assms(3) show ?thesis
    by (simp add: same_lists_def)
next
  case (Handler_on_timeout h accepted)
  with assms obtain h1 where "PoolHandler_on_timeout h accepted s = Inr (h1, t)"
    by (auto simp add: dropping_Inr)
  from PoolHandler_on_timeout_lists [OF this] assms(3) show ?thesis
    by (simp add: same_lists_def)
next
  case (Connection_changes c cc)
  with assms show ?thesis by auto
qed

lemma step_live:
  assumes "step config e s = Inr t" and "orderly e s"
    and "live_connections s \<le> max_connections_per_host config"
  shows "live_connections t \<le> max_connections_per_host config"
proof (cases e)
  case Borrow_connection
  with assms(1) obtain found where "borrow_connection config s = Inr (found, t)"
    by (auto simp add: dropping_Inr)
  from borrow_connection_cases [OF this] assms(2) Borrow_connection
  have "t = s \<or> t = maybe_spawn_connection config s" by (simp add: orderly_def)
  with assms(3) show ?thesis by (auto simp add: maybe_spawn_connection_live)
next
  case (Wait_for_connection r)
  with assms show ?thesis by (auto simp add: live_connections_def wait_for_connection_lists)
next
  case (Execute c r accepted)
  with assms show ?thesis by (auto simp add: live_connections_def execute_def emit_fields)
next
  case Close
  with assms show ?thesis by (auto simp add: live_connections_def close_fields)
next
  case (On_connection_connect c accepted)
  with assms(1,2) have "t = on_connection_connect c accepted s"
    and "c \<in> set (connections_pending s)"
    by (simp_all add: orderly_def)
  with on_connection_connect_live [of c s accepted] assms(3) show ?thesis by simp
next
  case (On_connection_close c)
  with assms(1) have "t = on_connection_close c s" by simp
  with on_connection_close_lists [of c s] assms(3) show ?thesis
    by (simp add: live_connections_def)
next
  case (On_timeout r)
  with assms show ?thesis by (auto simp add: live_connections_def on_timeout_lists)
next
  case (Handler_on_set h response accepted)
  with assms obtain h1 where "PoolHandler_on_set h response accepted s = Inr (h1, t)"
    by (auto simp add: dropping_Inr)
  from PoolHandler_on_set_lists [OF this] assms(3) show ?thesis
    by (simp add: same_lists_def live_connections_def)
next
  case (Handler_on_error h code message accepted)
  with assms obtain h1 where "PoolHandler_on_error h code message accepted s = Inr (h1, t)"
    by (auto simp add: dropping_Inr)
  from PoolHandler_on_error_lists [OF this] assms(3) show ?thesis
    by (simp add: same_lists_def live_connections_def)
next
  case (Handler_on_timeout h accepted)
  with assms obtain h1 where "PoolHandler_on_timeout h accepted s = Inr (h1, t)"
    by (auto simp add: dropping_Inr)
  from PoolHandler_on_timeout_lists [OF this] assms(3) show ?thesis
    by (simp add: same_lists_def live_connections_def)
next
  case (Connection_changes c cc)
  with assms show ?thesis by (auto simp add: live_connections_def)
qed

lemma run_pending:
  assumes "run config es s = Inr t" and "throughout borrows_from_ready config es s"
    and "length (connections_pending s) \<le> max_simultaneous_creation config"
  shows "length (connections_pending t) \<le> max_simultaneous_creation config"
  using assms
proof (induction es arbitrary: s)
  case Nil
  then show ?case by simp
next
  case (Cons e es)
  from Cons.prems(1) obtain s1 where
    first: "step config e s = Inr s1" and rest: "run config es s1 = Inr t"
    by (auto split: sum.splits)
  from Cons.prems(2) first have ok: "borrows_from_ready e s"
    and later: "throughout borrows_from_ready config es s1"
    by simp_all
  from step_pending [OF first ok Cons.prems(3)] show ?case
    by (rule Cons.IH [OF rest later])
qed

lemma run_live:
  assumes "run config es s = Inr t" and "throughout orderly config es s"
    and "live_connections s \<le> max_connections_per_host config"
  shows "live_connections t \<le> max_connections_per_host config"
  using assms
proof (induction es arbitrary: s)
  case Nil
  then show ?case by simp
next
  case (Cons e es)
  from Cons.prems(1) obtain s1 where
    first: "step config e s = Inr s1" and rest: "run config es s1 = Inr t"
    by (auto split: sum.splits)
  from Cons.prems(2) first have ok: "orderly e s"
    and later: "throughout orderly config es s1"
    by simp_all
  from step_live [OF first ok Cons.prems(3)] show ?case
    by (rule Cons.IH [OF rest later])
qed


text \<open>The definitions to unfold when a history is evaluated on a concrete pool.\<close>

lemmas pool_defs =
  Pool_ctor_def empty_Pool_def spawn_connection_def emit_def Let_def
  new_ClientConnection_def on_connection_connect_def on_connection_close_def
  execute_pending_request_def execute_def maybe_close_def close_def close_if_not_closing_def
  Connection_close_call_def borrow_connection_def maybe_spawn_connection_def
  find_least_busy_def max_element_def least_busy_comp_def wait_for_connection_def
  on_timeout_def dropping_def

lemma growing_run:
  "\<exists>t. run small_config growing (Pool_ctor small_config) = Inr t
       \<and> connections t = [0, 1] \<and> connections_pending t = []"
  by (simp add: growing_def small_config_def ready_connection_def pool_defs)

lemma growing_orderly: "throughout orderly small_config growing (Pool_ctor small_config)"
  by (simp add: growing_def small_config_def ready_connection_def pool_defs orderly_def)

lemma growing_borrows: "throughout borrows_from_ready small_config growing (Pool_ctor small_config)"
  by (simp add: growing_def small_config_def ready_connection_def pool_defs)

text \<open>
  C1, as stated, fails: the constructor spawns \<open>core_connections_per_host\<close> connections
  whatever \<open>max_connections_per_host\<close> is.
\<close>

theorem live_connections_counterexample:
  "max_connections_per_host core_above_max < live_connections (Pool_ctor core_above_max)"
  by (simp add: live_connections_def Pool_ctor_lists core_above_max_def)

text \<open>
  C1, amended. When \<open>core_connections_per_host \<le> max_connections_per_host\<close>, the pool
  holds at most \<open>max_connections_per_host\<close> connections (pending and ready together) in
  every state it reaches from its construction by a history in which connect
  completions are delivered for pending connections only and \<open>borrow_connection\<close> is
  called only on a pool that is closing or has a ready connection. (What
  \<open>borrow_connection\<close> does on an open pool with no ready connection, lines 242-247, is
  not part of the statement.)
\<close>

theorem live_connections_bounded:
  assumes "core_connections_per_host config \<le> max_connections_per_host config"
    and "throughout orderly config es (Pool_ctor config)"
    and "run config es (Pool_ctor config) = Inr t"
  shows "live_connections t \<le> max_connections_per_host config"
  using assms(3,2)
  by (rule run_live) (simp add: live_connections_def Pool_ctor_lists assms(1))

theorem live_connections_bounded_witness:
  "core_connections_per_host small_config \<le> max_connections_per_host small_config
   \<and> throughout orderly small_config growing (Pool_ctor small_config)
   \<and> (\<exists>t. run small_config growing (Pool_ctor small_config) = Inr t
          \<and> live_connections t = 2 \<and> max_connections_per_host small_config = 2)"
proof -
  have c: "core_connections_per_host small_config \<le> max_connections_per_host small_config"
    by (simp add: small_config_def)
  from growing_run obtain t where
    r: "run small_config growing (Pool_ctor small_config) = Inr t" and
    l: "connections t = [0, 1]" "connections_pending t = []"
    by blast
  from live_connections_bounded [OF c growing_orderly r] l
  have "live_connections t = 2 \<and> max_connections_per_host small_config = 2"
    by (simp add: live_connections_def small_config_def)
  with c growing_orderly r show ?thesis by blast
qed

text \<open>
  C2, as stated, fails: the constructor starts \<open>core_connections_per_host\<close> connects at
  once, whatever \<open>max_simultaneous_creation\<close> is.
\<close>

theorem connecting_counterexample:
  "max_simultaneous_creation core_above_creation
     < length (connections_pending (Pool_ctor core_above_creation))"
  by (simp add: Pool_ctor_lists core_above_creation_def)

text \<open>
  C2, amended. When \<open>core_connections_per_host \<le> max_simultaneous_creation\<close>, at most
  \<open>max_simultaneous_creation\<close> connections are pending in every state the pool reaches
  from its construction by a history in which \<open>borrow_connection\<close> is called only on a
  pool that is closing or has a ready connection. (What \<open>borrow_connection\<close> does on an
  open pool with no ready connection, lines 242-247, is not part of the statement.)
\<close>

theorem connecting_bounded:
  assumes "core_connections_per_host config \<le> max_simultaneous_creation config"
    and "throughout borrows_from_ready config es (Pool_ctor config)"
    and "run config es (Pool_ctor config) = Inr t"
  shows "length (connections_pending t) \<le> max_simultaneous_creation config"
  using assms(3,2)
  by (rule run_pending) (simp add: Pool_ctor_lists assms(1))

theorem connecting_bounded_witness:
  "core_connections_per_host small_config \<le> max_simultaneous_creation small_config
   \<and> throughout borrows_from_ready small_config growing (Pool_ctor small_config)
   \<and> (\<exists>t. run small_config growing (Pool_ctor small_config) = Inr t
          \<and> length (connections_pending t) \<le> 1)"
proof -
  have c: "core_connections_per_host small_config \<le> max_simultaneous_creation small_config"
    by (simp add: small_config_def)
  from growing_run obtain t where
    r: "run small_config growing (Pool_ctor small_config) = Inr t"
    by blast
  from connecting_bounded [OF c growing_borrows r]
  have "length (connections_pending t) \<le> 1"
    by (simp add: small_config_def)
  with c growing_borrows r show ?thesis by blast
qed

text \<open>On an open pool with no ready connection, \<open>borrow_connection\<close> (lines 242-247)
  calls \<open>spawn_connection\<close> in a loop, without the two tests of
  \<open>maybe_spawn_connection\<close>: two such calls before the first connect completes leave
  three pending connections under a maximum of two.\<close>

lemma borrow_connection_spawns_unchecked:
  "observe live_connections
     (run small_config [Borrow_connection, Borrow_connection] (Pool_ctor small_config)) = Some 3
   \<and> max_connections_per_host small_config = 2"
  by code_simp

subsection \<open>A defunct connection drains the pool\<close>

lemma fold_close_if_not_closing_trace:
  "\<exists>ext. trace (fold close_if_not_closing cs s) = trace s @ ext
         \<and> set ext = {Connection_close c |c. c \<in> set cs \<and> \<not> is_closing (conn s c)}"
proof (induction cs arbitrary: s)
  case Nil
  show ?case by simp
next
  case (Cons a cs)
  show ?case
  proof (cases "is_closing (conn s a)")
    case True
    from Cons.IH [of s] obtain ext where
      "trace (fold close_if_not_closing cs s) = trace s @ ext"
      "set ext = {Connection_close c |c. c \<in> set cs \<and> \<not> is_closing (conn s c)}"
      by blast
    moreover from True have "close_if_not_closing a s = s"
      by (simp add: close_if_not_closing_def)
    then have "fold close_if_not_closing (a # cs) s = fold close_if_not_closing cs s"
      by simp
    ultimately show ?thesis using True by auto
  next
    case False
    let ?s1 = "Connection_close_call a s"
    have closing: "is_closing (conn ?s1 c) \<longleftrightarrow> c = a \<or> is_closing (conn s c)" for c
      by (simp add: Connection_close_call_def emit_def)
    from Cons.IH [of ?s1] obtain ext where
      t: "trace (fold close_if_not_closing cs ?s1) = trace ?s1 @ ext" and
      e: "set ext = {Connection_close c |c. c \<in> set cs \<and> \<not> is_closing (conn ?s1 c)}"
      by blast
    from False have "close_if_not_closing a s = ?s1"
      by (simp add: close_if_not_closing_def)
    then have "fold close_if_not_closing (a # cs) s = fold close_if_not_closing cs ?s1"
      by simp
    with t have "trace (fold close_if_not_closing (a # cs) s)
        = trace s @ (Connection_close a # ext)"
      by (simp add: Connection_close_call_fields)
    moreover from e False have "set (Connection_close a # ext)
        = {Connection_close c |c. c \<in> set (a # cs) \<and> \<not> is_closing (conn s c)}"
      by (auto simp add: closing)
    ultimately show ?thesis by blast
  qed
qed

lemma maybe_close_trace:
  assumes "pool_is_closing s"
  shows "\<exists>ext. trace (maybe_close s) =
                 trace s @ ext @ (if drained s then [close_callback] else [])
         \<and> set ext = {Connection_close c |c. c \<in> set (connections s) \<and> \<not> is_closing (conn s c)}"
proof -
  from fold_close_if_not_closing_trace [of "connections s" s] obtain ext where
    "trace (fold close_if_not_closing (connections s) s) = trace s @ ext"
    "set ext = {Connection_close c |c. c \<in> set (connections s) \<and> \<not> is_closing (conn s c)}"
    by blast
  moreover have "trace (maybe_close s) =
      trace (fold close_if_not_closing (connections s) s)
      @ (if drained s then [close_callback] else [])"
    using assms
    by (simp add: maybe_close_def Let_def emit_fields fold_close_if_not_closing_fields
        drained_def del: fold_simps)
  ultimately show ?thesis by auto
qed

lemma on_connection_close_defunct:
  assumes "is_defunct (conn s c)"
  shows "pool_is_closing (on_connection_close c s)"
    and "set (since s (on_connection_close c s)) - {close_callback} =
           {Connection_close c' |c'. c' \<in> set (connections s) \<and> c' \<noteq> c
                                     \<and> \<not> is_closing (conn s c')}"
proof -
  let ?s2 = "s\<lparr>connections := removeAll c (connections s), pool_is_closing := True\<rparr>"
  have occ: "on_connection_close c s = maybe_close ?s2"
    using assms by (simp add: on_connection_close_def Let_def)
  show "pool_is_closing (on_connection_close c s)"
    by (simp add: occ maybe_close_fields)
  from maybe_close_trace [of ?s2] obtain ext where
    "trace (maybe_close ?s2) = trace ?s2 @ ext @ (if drained ?s2 then [close_callback] else [])"
    "set ext = {Connection_close c' |c'. c' \<in> set (connections ?s2) \<and> \<not> is_closing (conn ?s2 c')}"
    by auto
  then show "set (since s (on_connection_close c s)) - {close_callback} =
           {Connection_close c' |c'. c' \<in> set (connections s) \<and> c' \<noteq> c
                                     \<and> \<not> is_closing (conn s c')}"
    by (auto simp add: occ since_def)
qed

lemma close_notifications_on_connection_close:
  "close_notifications (on_connection_close c s) =
     close_notifications s
     + (if pool_is_closing (on_connection_close c s) \<and> drained (on_connection_close c s)
        then 1 else 0)"
  by (simp add: on_connection_close_def Let_def close_notifications_maybe_close
      maybe_close_fields drained_def) (simp add: close_notifications_def)

lemma close_notifications_on_timeout:
  "close_notifications (on_timeout r s) =
     close_notifications s
     + (if pool_is_closing (on_timeout r s) \<and> drained (on_timeout r s) then 1 else 0)"
  by (simp add: on_timeout_def Let_def close_notifications_maybe_close
      maybe_close_fields drained_def emit_fields close_notifications_emit)
     (simp add: close_notifications_def)

lemma close_notifications_spawn_connection:
  "close_notifications (spawn_connection s) = close_notifications s"
  by (simp add: spawn_connection_def Let_def close_notifications_def emit_def)

lemma close_notifications_spawn_connections:
  "close_notifications (spawn_connections n s) = close_notifications s"
  by (induction n arbitrary: s) (simp_all add: close_notifications_spawn_connection)

lemma close_notifications_borrow_connection:
  "borrow_connection config s = Inr (found, t) \<Longrightarrow> close_notifications t = close_notifications s"
  by (auto simp add: borrow_connection_def Let_def maybe_spawn_connection_def
      close_notifications_spawn_connection close_notifications_spawn_connections
      split: if_splits sum.splits)

lemma close_notifications_execute_pending_request:
  "close_notifications (execute_pending_request c accepted s) = close_notifications s"
  unfolding close_notifications_def execute_pending_request_trace
  by (cases "pending_request_queue s") simp_all

lemma close_notifications_finish_request:
  "close_notifications (finish_request h accepted s) = close_notifications s"
  by (simp add: finish_request_def close_notifications_execute_pending_request)

lemma close_notifications_on_connection_connect:
  "close_notifications (on_connection_connect c accepted s) = close_notifications s"
  by (simp add: on_connection_connect_def Let_def close_notifications_execute_pending_request
      close_notifications_Connection_close_call)
     (simp add: close_notifications_def emit_def)

lemma close_notifications_Connection_defunct_call:
  "close_notifications (Connection_defunct_call c s) = close_notifications s"
  by (simp add: Connection_defunct_call_def close_notifications_def emit_def)

lemma close_notifications_handlers:
  "PoolHandler_on_set h response accepted s = Inr (h1, t) \<Longrightarrow>
     close_notifications t = close_notifications s"
  "PoolHandler_on_error h code message accepted s = Inr (h1, t) \<Longrightarrow>
     close_notifications t = close_notifications s"
  "PoolHandler_on_timeout h accepted s = Inr (h1, t) \<Longrightarrow>
     close_notifications t = close_notifications s"
  by (auto simp add: PoolHandler_on_set_def PoolHandler_on_error_def PoolHandler_on_timeout_def
      on_error_response_def request_on_set_def close_notifications_finish_request
      close_notifications_emit close_notifications_Connection_defunct_call
      split: cql_opcode.splits cql_error.splits option.splits if_splits)


lemma close_notifications_step:
  assumes "step config e s = Inr t"
  shows "close_notifications t =
           close_notifications s
           + (if checks_draining e \<and> pool_is_closing t \<and> drained t then 1 else 0)"
proof (cases e)
  case Borrow_connection
  with assms show ?thesis
    by (auto simp add: dropping_Inr close_notifications_borrow_connection)
next
  case (Wait_for_connection r)
  with assms show ?thesis
    by (auto simp add: wait_for_connection_def Let_def close_notifications_def emit_def)
next
  case (Execute c r accepted)
  with assms show ?thesis by (auto simp add: execute_def close_notifications_emit)
next
  case Close
  with assms show ?thesis
    by (auto simp add: close_notifications_close drained_close close_fields)
next
  case (On_connection_connect c accepted)
  with assms show ?thesis by (auto simp add: close_notifications_on_connection_connect)
next
  case (On_connection_close c)
  with assms close_notifications_on_connection_close [of c s] show ?thesis by auto
next
  case (On_timeout r)
  with assms close_notifications_on_timeout [of r s] show ?thesis by auto
next
  case (Handler_on_set h response accepted)
  with assms show ?thesis by (auto simp add: dropping_Inr close_notifications_handlers)
next
  case (Handler_on_error h code message accepted)
  with assms show ?thesis by (auto simp add: dropping_Inr close_notifications_handlers)
next
  case (Handler_on_timeout h accepted)
  with assms show ?thesis by (auto simp add: dropping_Inr close_notifications_handlers)
next
  case (Connection_changes c cc)
  with assms show ?thesis by (auto simp add: close_notifications_def)
qed

text \<open>
  C8, as stated, fails in "exactly once": nothing records that the notification has
  fired. When a ready connection turns defunct while two others are still connecting,
  both are closed as they finish connecting, and each of their close completions finds
  the pool drained and fires the notification.
\<close>

theorem close_notification_twice_counterexample:
  "observe close_notifications
     (run three_core defunct_while_connecting (Pool_ctor three_core)) = Some 2"
  by code_simp


text \<open>
  C8, amended. When the close of a defunct connection completes, the pool is closing
  afterwards, and the connections closed during the call are exactly the other members
  of the ready list that were not already closing. Whatever the event, the close
  notification fires during it at most once, and it does so exactly when the event ends
  in the draining check (a close completion, a queue timeout, \<open>close()\<close>) and leaves a
  closing pool whose ready list, pending list and queue are all empty: never before
  that, and again at each later event of that kind.
\<close>

theorem defunct_close_starts_draining:
  "(is_defunct (conn s c) \<longrightarrow>
      pool_is_closing (on_connection_close c s)
    \<and> set (since s (on_connection_close c s)) - {close_callback} =
        {Connection_close c' |c'. c' \<in> set (connections s) \<and> c' \<noteq> c
                                  \<and> \<not> is_closing (conn s c')})
   \<and> (\<forall>e t. step config e s = Inr t \<longrightarrow>
         close_notifications t =
           close_notifications s
           + (if checks_draining e \<and> pool_is_closing t \<and> drained t then 1 else 0))"
  using on_connection_close_defunct [of s c] close_notifications_step [of config _ s]
  by blast

theorem defunct_close_starts_draining_witness:
  "is_defunct (conn one_defunct 0)
   \<and> pool_is_closing (on_connection_close 0 one_defunct)
   \<and> set (since one_defunct (on_connection_close 0 one_defunct)) - {close_callback}
       = {Connection_close 1}
   \<and> close_notifications (on_connection_close 0 one_defunct) = 0
   \<and> close_notifications (on_connection_close 1 (on_connection_close 0 one_defunct)) = 0
   \<and> close_notifications
       (on_connection_close 2 (on_connection_close 1 (on_connection_close 0 one_defunct))) = 1"
proof -
  let ?s1 = "on_connection_close 0 one_defunct"
  let ?s2 = "on_connection_close 1 ?s1"
  let ?s3 = "on_connection_close 2 ?s2"
  have d: "is_defunct (conn one_defunct 0)"
    by (simp add: one_defunct_def defunct_connection_def empty_Pool_def)
  have n0: "close_notifications one_defunct = 0"
    by (simp add: one_defunct_def close_notifications_def empty_Pool_def)
  have l1: "connections ?s1 = [1, 2]" and l2: "connections ?s2 = [2]"
    and l3: "connections ?s3 = []" "connections_pending ?s3 = []" "pending_request_queue ?s3 = []"
    by (simp_all add: on_connection_close_def Let_def maybe_close_fields one_defunct_def
        empty_Pool_def)
  have c3: "pool_is_closing ?s3"
    using d by (simp add: on_connection_close_def Let_def maybe_close_fields)
  note main = defunct_close_starts_draining
  have steps: "close_notifications (on_connection_close c s) =
      close_notifications s
      + (if pool_is_closing (on_connection_close c s) \<and> drained (on_connection_close c s)
         then 1 else 0)" for c s
  proof -
    have "step small_config (On_connection_close c) s = Inr (on_connection_close c s)"
      by simp
    with main [of s c small_config] show ?thesis by fastforce
  qed
  from main [of one_defunct 0 small_config] d
  have a: "pool_is_closing ?s1"
    and b: "set (since one_defunct ?s1) - {close_callback} =
        {Connection_close c' |c'. c' \<in> set (connections one_defunct) \<and> c' \<noteq> 0
                                  \<and> \<not> is_closing (conn one_defunct c')}"
    by blast+
  have "{Connection_close c' |c'. c' \<in> set (connections one_defunct) \<and> c' \<noteq> 0
                                  \<and> \<not> is_closing (conn one_defunct c')} = {Connection_close 1}"
    by (auto simp add: one_defunct_def empty_Pool_def ready_connection_def)
  with b have b': "set (since one_defunct ?s1) - {close_callback} = {Connection_close 1}"
    by (rule trans)
  from steps [of 0 one_defunct] n0 l1 have n1: "close_notifications ?s1 = 0"
    by (simp add: drained_def)
  from steps [of 1 ?s1] n1 l2 have n2: "close_notifications ?s2 = 0"
    by (simp add: drained_def)
  from steps [of 2 ?s2] n2 l3 c3 have n3: "close_notifications ?s3 = 1"
    by (simp add: drained_def)
  from d a b' n1 n2 n3 show ?thesis by blast
qed

end
